theory Spec2Isabelle
  imports Main
begin

section \<open>Data model\<close>

text \<open>
  The three pydantic models of \<^verbatim>\<open>schemas.py\<close>. \<^verbatim>\<open>User.id\<close> is the field \<open>uid\<close> (the
  name \<open>id\<close> is HOL's identity function); the fields of the two request payloads carry
  a prefix, because all three classes call their fields \<^verbatim>\<open>name\<close> and \<^verbatim>\<open>email\<close>.
  An absent (\<^verbatim>\<open>None\<close>) field of \<^verbatim>\<open>UserUpdate\<close> is \<open>None\<close>. Emails are strings, compared
  with \<open>=\<close> as Python's \<^verbatim>\<open>==\<close> compares \<^verbatim>\<open>str\<close>. A payload holds what pydantic hands to
  the handler once the request has passed validation (\<^verbatim>\<open>min_length=1\<close>,
  \<^verbatim>\<open>max_length=100\<close>, \<^verbatim>\<open>EmailStr\<close>); the handlers themselves never look at these
  constraints, and nothing below depends on them.
\<close>

record user =
  uid :: int
  name :: string
  email :: string

record user_create =
  create_name :: string
  create_email :: string

record user_update =
  update_name :: "string option"
  update_email :: "string option"

text \<open>
  What a handler can raise: FastAPI's \<^verbatim>\<open>HTTPException(status_code, detail)\<close>, pydantic's
  \<^verbatim>\<open>ValidationError\<close> (from the constructor \<^verbatim>\<open>User(...)\<close>) and \<^verbatim>\<open>KeyError\<close> (from
  \<^verbatim>\<open>del users[k]\<close>).
\<close>

datatype exn =
  HTTPException (status_code: int) (detail: string)
| ValidationError
| KeyError

text \<open>
  \<^verbatim>\<open>User(id=i, name=n, email=e)\<close>: the field \<^verbatim>\<open>id\<close> is declared with \<^verbatim>\<open>ge=1\<close>, so the
  constructor raises for a smaller number. \<^verbatim>\<open>name\<close> is an unconstrained \<^verbatim>\<open>str\<close> here, and
  the email handed over is always one that the request model has already accepted.
\<close>

definition User :: "int \<Rightarrow> string \<Rightarrow> string \<Rightarrow> exn + user" where
  "User i n e = (if 1 \<le> i then Inr \<lparr>uid = i, name = n, email = e\<rparr> else Inl ValidationError)"

section \<open>The in-memory store\<close>

text \<open>
  \<^verbatim>\<open>users: Dict[int, User]\<close>. A Python dict iterates in insertion order, and
  \<^verbatim>\<open>list(users.values())\<close> exposes that order, so the dict is an association list in
  insertion order: \<^verbatim>\<open>d[k] = v\<close> overwrites the entry of an existing key where it stands
  and appends a new key at the end; \<^verbatim>\<open>del d[k]\<close> takes the entry out and raises
  \<^verbatim>\<open>KeyError\<close> (here \<open>None\<close>) when there is none.
\<close>

type_synonym 'v dict = "(int \<times> 'v) list"

fun dict_get :: "'v dict \<Rightarrow> int \<Rightarrow> 'v option" where
  "dict_get [] k = None"
| "dict_get ((k', v') # d) k = (if k' = k then Some v' else dict_get d k)"

definition dict_contains :: "'v dict \<Rightarrow> int \<Rightarrow> bool" where
  "dict_contains d k = (dict_get d k \<noteq> None)"

fun dict_setitem :: "'v dict \<Rightarrow> int \<Rightarrow> 'v \<Rightarrow> 'v dict" where
  "dict_setitem [] k v = [(k, v)]"
| "dict_setitem ((k', v') # d) k v =
     (if k' = k then (k, v) # d else (k', v') # dict_setitem d k v)"

fun dict_delitem :: "'v dict \<Rightarrow> int \<Rightarrow> 'v dict option" where
  "dict_delitem [] k = None"
| "dict_delitem ((k', v') # d) k =
     (if k' = k then Some d
      else (case dict_delitem d k of None \<Rightarrow> None | Some d' \<Rightarrow> Some ((k', v') # d')))"

definition dict_keys :: "'v dict \<Rightarrow> int list" where
  "dict_keys d = map fst d"

definition dict_values :: "'v dict \<Rightarrow> 'v list" where
  "dict_values d = map snd d"

text \<open>
  The module-level state, which \<^verbatim>\<open>routers/api.py\<close> imports from the module
  \<^verbatim>\<open>database\<close> and \<^verbatim>\<open>main.py\<close> declares itself as
  \<^verbatim>\<open>users: Dict[int, User] = {}\<close> and \<^verbatim>\<open>next_id = 1\<close>: the dict and the counter. The
  fixture \<^verbatim>\<open>reset_inmemory_db\<close> of the tests resets them to the same two values.
\<close>

record database =
  users :: "user dict"
  next_id :: int

definition init_db :: database where
  "init_db = \<lparr>users = [], next_id = 1\<rparr>"

section \<open>The handlers of routers/api.py\<close>

text \<open>
  Each handler takes the state and the arguments FastAPI passes it, and returns what it
  returns or raises together with the state it leaves behind. The statements are
  threaded in the order of the source, so that an exception leaves the state as it is
  at the \<^verbatim>\<open>raise\<close>. The handlers of \<^verbatim>\<open>main.py\<close> have the same bodies.
\<close>

text \<open>
  \<^verbatim>\<open>
  def create_user(payload):
      if any(u.email == payload.email for u in users.values()):
          raise HTTPException(status_code=400, detail="Email already exists")
      user = User(id=database.next_id, name=payload.name, email=payload.email)
      users[database.next_id] = user
      database.next_id += 1
      return user
  \<close>
\<close>

definition create_user :: "database \<Rightarrow> user_create \<Rightarrow> (exn + user) \<times> database" where
  "create_user db payload =
     (if list_ex (\<lambda>u. email u = create_email payload) (dict_values (users db))
      then (Inl (HTTPException 400 ''Email already exists''), db)
      else
        (case User (next_id db) (create_name payload) (create_email payload) of
           Inl e \<Rightarrow> (Inl e, db)
         | Inr user \<Rightarrow>
             (let db1 = db\<lparr>users := dict_setitem (users db) (next_id db) user\<rparr>;
                  db2 = db1\<lparr>next_id := next_id db1 + 1\<rparr>
              in (Inr user, db2))))"

text \<open>
  \<^verbatim>\<open>
  def list_users():
      return list(users.values())
  \<close>
\<close>

definition list_users :: "database \<Rightarrow> user list \<times> database" where
  "list_users db = (dict_values (users db), db)"

text \<open>
  \<^verbatim>\<open>
  def get_user(user_id):
      user = users.get(user_id)
      if not user:
          raise HTTPException(status_code=404, detail="User not found")
      return user
  \<close>
  A pydantic model is always truthy, so \<^verbatim>\<open>not user\<close> holds exactly when the key is
  missing.
\<close>

definition get_user :: "database \<Rightarrow> int \<Rightarrow> (exn + user) \<times> database" where
  "get_user db user_id =
     (case dict_get (users db) user_id of
        None \<Rightarrow> (Inl (HTTPException 404 ''User not found''), db)
      | Some user \<Rightarrow> (Inr user, db))"

text \<open>
  \<^verbatim>\<open>
  def update_user(user_id, payload):
      user = users.get(user_id)
      if not user:
          raise HTTPException(status_code=404, detail="User not found")
      new_name = payload.name if payload.name is not None else user.name
      new_email = payload.email if payload.email is not None else user.email
      if new_email != user.email and any(u.email == new_email for u in users.values()):
          raise HTTPException(status_code=400, detail="Email already exists")
      updated = User(id=user_id, name=new_name, email=new_email)
      users[user_id] = updated
      return updated
  \<close>
\<close>

definition update_user :: "database \<Rightarrow> int \<Rightarrow> user_update \<Rightarrow> (exn + user) \<times> database" where
  "update_user db user_id payload =
     (case dict_get (users db) user_id of
        None \<Rightarrow> (Inl (HTTPException 404 ''User not found''), db)
      | Some user \<Rightarrow>
          (let new_name = (case update_name payload of Some n \<Rightarrow> n | None \<Rightarrow> name user);
               new_email = (case update_email payload of Some e \<Rightarrow> e | None \<Rightarrow> email user)
           in if new_email \<noteq> email user
                 \<and> list_ex (\<lambda>u. email u = new_email) (dict_values (users db))
              then (Inl (HTTPException 400 ''Email already exists''), db)
              else
                (case User user_id new_name new_email of
                   Inl e \<Rightarrow> (Inl e, db)
                 | Inr updated \<Rightarrow>
                     (Inr updated, db\<lparr>users := dict_setitem (users db) user_id updated\<rparr>))))"

text \<open>
  \<^verbatim>\<open>
  def delete_user(user_id):
      if user_id not in users:
          raise HTTPException(status_code=404, detail="User not found")
      del users[user_id]
      return None
  \<close>
\<close>

definition delete_user :: "database \<Rightarrow> int \<Rightarrow> (exn + unit) \<times> database" where
  "delete_user db user_id =
     (if \<not> dict_contains (users db) user_id
      then (Inl (HTTPException 404 ''User not found''), db)
      else
        (case dict_delitem (users db) user_id of
           None \<Rightarrow> (Inl KeyError, db)
         | Some d \<Rightarrow> (Inr (), db\<lparr>users := d\<rparr>)))"

section \<open>Sequences of requests\<close>

text \<open>
  The router: one request is one call of one handler (\<^verbatim>\<open>POST /users\<close>,
  \<^verbatim>\<open>GET /users\<close>, \<^verbatim>\<open>GET /users/{user_id}\<close>, \<^verbatim>\<open>PUT /users/{user_id}\<close>,
  \<^verbatim>\<open>DELETE /users/{user_id}\<close>). A request that raises is answered with the error, and
  the next request finds the state the handler left. \<open>run\<close> is the state after a
  sequence of requests and \<open>responses\<close> the answers they got, one after the other.
\<close>

datatype request =
  Create user_create
| List
| Get int
| Update int user_update
| Delete int

datatype response = RUser user | RUsers "user list" | RNone

fun handle :: "database \<Rightarrow> request \<Rightarrow> (exn + response) \<times> database" where
  "handle db (Create payload) = (case create_user db payload of (r, db') \<Rightarrow> (map_sum (\<lambda>e. e) RUser r, db'))"
| "handle db List = (case list_users db of (us, db') \<Rightarrow> (Inr (RUsers us), db'))"
| "handle db (Get i) = (case get_user db i of (r, db') \<Rightarrow> (map_sum (\<lambda>e. e) RUser r, db'))"
| "handle db (Update i payload) = (case update_user db i payload of (r, db') \<Rightarrow> (map_sum (\<lambda>e. e) RUser r, db'))"
| "handle db (Delete i) = (case delete_user db i of (r, db') \<Rightarrow> (map_sum (\<lambda>e. e) (\<lambda>_. RNone) r, db'))"

fun run :: "database \<Rightarrow> request list \<Rightarrow> database" where
  "run db [] = db"
| "run db (r # rs) = run (snd (handle db r)) rs"

fun responses :: "database \<Rightarrow> request list \<Rightarrow> (exn + response) list" where
  "responses db [] = []"
| "responses db (r # rs) = fst (handle db r) # responses (snd (handle db r)) rs"

text \<open>The id a request was assigned: that of the record a successful create returns.\<close>

fun assigned_id :: "request \<Rightarrow> exn + response \<Rightarrow> int list" where
  "assigned_id (Create payload) (Inr (RUser u)) = [uid u]"
| "assigned_id _ _ = []"

definition created_ids :: "database \<Rightarrow> request list \<Rightarrow> int list" where
  "created_ids db rs = concat (map2 assigned_id rs (responses db rs))"

section \<open>Example data\<close>

text \<open>
  The two users of \<^verbatim>\<open>test_update_to_existing_email_subtests\<close> and the store after both
  have been created, used to run the handlers on concrete inputs.
\<close>

abbreviation u1_create :: user_create where
  "u1_create \<equiv> \<lparr>create_name = ''U1'', create_email = ''u1@example.com''\<rparr>"

abbreviation u2_create :: user_create where
  "u2_create \<equiv> \<lparr>create_name = ''U2'', create_email = ''u2@example.com''\<rparr>"

abbreviation user1 :: user where
  "user1 \<equiv> \<lparr>uid = 1, name = ''U1'', email = ''u1@example.com''\<rparr>"

abbreviation user2 :: user where
  "user2 \<equiv> \<lparr>uid = 2, name = ''U2'', email = ''u2@example.com''\<rparr>"

abbreviation db_one :: database where
  "db_one \<equiv> \<lparr>users = [(1, user1)], next_id = 2\<rparr>"

abbreviation db_two :: database where
  "db_two \<equiv> \<lparr>users = [(1, user1), (2, user2)], next_id = 3\<rparr>"

section \<open>The invariant of the store\<close>

text \<open>
  What every state reached from the empty store satisfies: the counter is positive; the
  keys stand in increasing order (so they are pairwise distinct, as the keys of a dict
  are); every record is stored under its own id, which is positive and below the
  counter; and the emails of the stored records are pairwise distinct.
\<close>

definition wf_db :: "database \<Rightarrow> bool" where
  "wf_db db =
     (1 \<le> next_id db
      \<and> sorted_wrt (<) (dict_keys (users db))
      \<and> list_all (\<lambda>(k, u). uid u = k \<and> 1 \<le> k \<and> k < next_id db) (users db)
      \<and> distinct (map email (dict_values (users db))))"

section \<open>Facts about the dict operations\<close>

lemma dict_get_None_iff: "dict_get d k = None \<longleftrightarrow> k \<notin> set (dict_keys d)"
  by (induction d k rule: dict_get.induct) (auto simp: dict_keys_def)

lemma dict_get_split:
  "dict_get d k = Some v \<Longrightarrow>
     \<exists>d1 d2. d = d1 @ (k, v) # d2 \<and> k \<notin> set (dict_keys d1)
       \<and> (\<forall>v'. dict_setitem d k v' = d1 @ (k, v') # d2)
       \<and> dict_delitem d k = Some (d1 @ d2)"
proof (induction d)
  case Nil
  then show ?case by simp
next
  case (Cons p d)
  obtain k' v' where p: "p = (k', v')" by (cases p)
  show ?case
  proof (cases "k' = k")
    case True
    with Cons.prems p have "v' = v" by simp
    with True p have "p # d = [] @ (k, v) # d \<and> k \<notin> set (dict_keys [])
       \<and> (\<forall>w. dict_setitem (p # d) k w = [] @ (k, w) # d)
       \<and> dict_delitem (p # d) k = Some ([] @ d)"
      by (simp add: dict_keys_def)
    then show ?thesis by blast
  next
    case False
    with Cons.prems p have "dict_get d k = Some v" by simp
    from Cons.IH [OF this] obtain d1 d2 where
      *: "d = d1 @ (k, v) # d2" "k \<notin> set (dict_keys d1)"
         "\<forall>w. dict_setitem d k w = d1 @ (k, w) # d2"
         "dict_delitem d k = Some (d1 @ d2)"
      by blast
    with False p have "p # d = (p # d1) @ (k, v) # d2 \<and> k \<notin> set (dict_keys (p # d1))
       \<and> (\<forall>w. dict_setitem (p # d) k w = (p # d1) @ (k, w) # d2)
       \<and> dict_delitem (p # d) k = Some ((p # d1) @ d2)"
      by (simp add: dict_keys_def)
    then show ?thesis by blast
  qed
qed

lemma dict_setitem_fresh: "k \<notin> set (dict_keys d) \<Longrightarrow> dict_setitem d k v = d @ [(k, v)]"
  by (induction d) (auto simp: dict_keys_def)

lemma wf_db_keys_lt: "wf_db db \<Longrightarrow> k \<in> set (dict_keys (users db)) \<Longrightarrow> 1 \<le> k \<and> k < next_id db"
  by (auto simp: wf_db_def dict_keys_def list_all_iff)

lemma wf_db_next_id_fresh: "wf_db db \<Longrightarrow> next_id db \<notin> set (dict_keys (users db))"
  using wf_db_keys_lt by blast

lemma wf_db_uid: "wf_db db \<Longrightarrow> dict_get (users db) k = Some u \<Longrightarrow> uid u = k \<and> 1 \<le> k \<and> k < next_id db"
  by (drule dict_get_split [where d = "users db"]) (auto simp: wf_db_def list_all_iff)

lemma wf_init_db: "wf_db init_db"
  by (simp add: wf_db_def init_db_def dict_keys_def dict_values_def)

lemma create_user_Inr:
  "create_user db payload = (Inr u, db') \<Longrightarrow>
     u = \<lparr>uid = next_id db, name = create_name payload, email = create_email payload\<rparr>
     \<and> 1 \<le> next_id db
     \<and> \<not> list_ex (\<lambda>u. email u = create_email payload) (dict_values (users db))
     \<and> db' = \<lparr>users = dict_setitem (users db) (next_id db) u, next_id = next_id db + 1\<rparr>"
  by (auto simp: create_user_def User_def Let_def split: if_splits)

lemma create_user_Inl: "fst (create_user db payload) = Inl e \<Longrightarrow> snd (create_user db payload) = db"
  by (auto simp: create_user_def User_def Let_def split: if_splits)

lemma create_user_wf:
  assumes "wf_db db"
  shows "wf_db (snd (create_user db payload))"
proof (cases "fst (create_user db payload)")
  case (Inl e)
  with assms show ?thesis by (simp add: create_user_Inl)
next
  case (Inr u)
  then have "create_user db payload = (Inr u, snd (create_user db payload))"
    by (metis prod.collapse)
  note c = create_user_Inr [OF this]
  have fresh: "dict_setitem (users db) (next_id db) u = users db @ [(next_id db, u)]"
    using assms by (simp add: dict_setitem_fresh wf_db_next_id_fresh)
  have new: "email u \<notin> email ` set (dict_values (users db))"
    using c by (auto simp: list_ex_iff)
  have "wf_db \<lparr>users = users db @ [(next_id db, u)], next_id = next_id db + 1\<rparr>"
    using assms c new
    by (auto simp: wf_db_def dict_keys_def dict_values_def sorted_wrt_append list_all_iff)
  with c fresh show ?thesis by simp
qed


lemma update_user_Inr:
  "update_user db i payload = (Inr u', db') \<Longrightarrow>
     \<exists>u. dict_get (users db) i = Some u
       \<and> u' = \<lparr>uid = i,
               name = (case update_name payload of Some n \<Rightarrow> n | None \<Rightarrow> name u),
               email = (case update_email payload of Some e \<Rightarrow> e | None \<Rightarrow> email u)\<rparr>
       \<and> 1 \<le> i
       \<and> (email u' = email u \<or> \<not> list_ex (\<lambda>u. email u = email u') (dict_values (users db)))
       \<and> db' = db\<lparr>users := dict_setitem (users db) i u'\<rparr>"
  by (auto simp: update_user_def User_def Let_def split: if_splits option.splits)

lemma update_user_Inl: "fst (update_user db i payload) = Inl e \<Longrightarrow> snd (update_user db i payload) = db"
  by (auto simp: update_user_def User_def Let_def split: if_splits option.splits)

lemma update_user_wf:
  assumes "wf_db db"
  shows "wf_db (snd (update_user db i payload))"
proof (cases "fst (update_user db i payload)")
  case (Inl e)
  with assms show ?thesis by (simp add: update_user_Inl)
next
  case (Inr u')
  then have "update_user db i payload = (Inr u', snd (update_user db i payload))"
    by (metis prod.collapse)
  from update_user_Inr [OF this] obtain u where
    u: "dict_get (users db) i = Some u" and
    u': "uid u' = i" and
    e: "email u' = email u \<or> \<not> list_ex (\<lambda>u. email u = email u') (dict_values (users db))" and
    db': "snd (update_user db i payload) = db\<lparr>users := dict_setitem (users db) i u'\<rparr>"
    by auto
  from dict_get_split [OF u] obtain d1 d2 where
    d: "users db = d1 @ (i, u) # d2" and
    s: "dict_setitem (users db) i u' = d1 @ (i, u') # d2"
    by blast
  define xs ys where "xs = map email (dict_values d1)" and "ys = map email (dict_values d2)"
  have old: "distinct (xs @ email u # ys)"
    using assms by (simp add: wf_db_def d xs_def ys_def dict_values_def)
  have "email u' = email u \<or> email u' \<notin> set (map email (dict_values (users db)))"
    using e by (auto simp: list_ex_iff)
  then have "email u' = email u \<or> email u' \<notin> set (xs @ email u # ys)"
    by (simp add: d xs_def ys_def dict_values_def)
  with old have "distinct (xs @ email u' # ys)"
    by auto
  then have emails: "distinct (map email (dict_values (d1 @ (i, u') # d2)))"
    by (simp add: xs_def ys_def dict_values_def)
  have "1 \<le> next_id db \<and> sorted_wrt (<) (dict_keys (d1 @ (i, u') # d2))
      \<and> list_all (\<lambda>(k, u). uid u = k \<and> 1 \<le> k \<and> k < next_id db) (d1 @ (i, u') # d2)"
    using assms u' by (simp add: wf_db_def d dict_keys_def)
  with emails have "wf_db (db\<lparr>users := d1 @ (i, u') # d2\<rparr>)"
    by (simp add: wf_db_def)
  with db' s show ?thesis by simp
qed

lemma delete_user_Inr:
  "delete_user db i = (Inr x, db') \<Longrightarrow>
     \<exists>d. dict_get (users db) i \<noteq> None \<and> dict_delitem (users db) i = Some d \<and> db' = db\<lparr>users := d\<rparr>"
  by (auto simp: delete_user_def dict_contains_def split: if_splits option.splits)

lemma delete_user_Inl: "fst (delete_user db i) = Inl e \<Longrightarrow> snd (delete_user db i) = db"
  by (auto simp: delete_user_def split: if_splits option.splits)

lemma delete_user_wf:
  assumes "wf_db db"
  shows "wf_db (snd (delete_user db i))"
proof (cases "fst (delete_user db i)")
  case (Inl e)
  with assms show ?thesis by (simp add: delete_user_Inl)
next
  case (Inr x)
  then have "delete_user db i = (Inr x, snd (delete_user db i))"
    by (metis prod.collapse)
  from delete_user_Inr [OF this] obtain d u where
    u: "dict_get (users db) i = Some u" and
    del: "dict_delitem (users db) i = Some d" and
    db': "snd (delete_user db i) = db\<lparr>users := d\<rparr>"
    by auto
  from dict_get_split [OF u] del obtain d1 d2 where
    d: "users db = d1 @ (i, u) # d2" "d = d1 @ d2"
    by auto
  have "wf_db (db\<lparr>users := d1 @ d2\<rparr>)"
    using assms unfolding d wf_db_def
    by (auto simp: dict_keys_def dict_values_def sorted_wrt_append)
  with db' d show ?thesis by simp
qed

lemma snd_handle:
  "snd (handle db r) =
     (case r of
        Create payload \<Rightarrow> snd (create_user db payload)
      | Update i payload \<Rightarrow> snd (update_user db i payload)
      | Delete i \<Rightarrow> snd (delete_user db i)
      | _ \<Rightarrow> db)"
  by (cases r) (auto simp: list_users_def get_user_def split: prod.splits option.splits)

lemma handle_wf: "wf_db db \<Longrightarrow> wf_db (snd (handle db r))"
  by (simp add: snd_handle create_user_wf update_user_wf delete_user_wf split: request.splits)

lemma run_wf: "wf_db db \<Longrightarrow> wf_db (run db rs)"
  by (induction rs arbitrary: db) (auto simp: handle_wf)

lemma dict_get_setitem: "dict_get (dict_setitem d k v) k' = (if k' = k then Some v else dict_get d k')"
  by (induction d k v rule: dict_setitem.induct) auto

lemma dict_get_mem: "dict_get d k = Some v \<Longrightarrow> (k, v) \<in> set d"
  by (induction d k rule: dict_get.induct) (auto split: if_splits)

lemma dict_setitem_mem: "(k, v) \<in> set (dict_setitem d k v)"
  by (induction d k v rule: dict_setitem.induct) auto

lemma dict_setitem_same: "dict_get d k = Some v \<Longrightarrow> dict_setitem d k v = d"
  by (induction d k v rule: dict_setitem.induct) (auto split: if_splits)

lemma wf_db_reachable: "wf_db (run init_db rs)"
  by (simp add: run_wf wf_init_db)

lemma get_user_Inr: "fst (get_user db i) = Inr u \<longleftrightarrow> dict_get (users db) i = Some u"
  by (simp add: get_user_def split: option.splits)

lemma run_two: "run init_db [Create u1_create, Create u2_create] = db_two"
  by (simp add: init_db_def create_user_def User_def dict_values_def)

lemma create_db_one: "create_user init_db u1_create = (Inr user1, db_one)"
  by (simp add: init_db_def create_user_def User_def dict_values_def)

section \<open>Errors leave the store as it was\<close>

text \<open>
  Claim C4. Whenever create, update or delete fails (with NotFound, DuplicateEmail or
  any other error), the state the handler leaves, record map and counter, is the state
  it found.
\<close>

theorem error_leaves_store_unchanged:
  "(fst (create_user db cp) = Inl e \<longrightarrow> snd (create_user db cp) = db)
   \<and> (fst (update_user db i up) = Inl e \<longrightarrow> snd (update_user db i up) = db)
   \<and> (fst (delete_user db i) = Inl e \<longrightarrow> snd (delete_user db i) = db)"
  by (simp add: create_user_Inl update_user_Inl delete_user_Inl)

text \<open>
  On the store of two users: creating a third with the email of the first and moving
  the second to the email of the first both fail with 400, deleting id 7 fails with
  404, and each leaves the store as it was.
\<close>

theorem error_leaves_store_unchanged_witness:
  "fst (create_user db_two \<lparr>create_name = ''B'', create_email = ''u1@example.com''\<rparr>)
     = Inl (HTTPException 400 ''Email already exists'')
   \<and> snd (create_user db_two \<lparr>create_name = ''B'', create_email = ''u1@example.com''\<rparr>) = db_two
   \<and> fst (update_user db_two 2 \<lparr>update_name = None, update_email = Some ''u1@example.com''\<rparr>)
     = Inl (HTTPException 400 ''Email already exists'')
   \<and> snd (update_user db_two 2 \<lparr>update_name = None, update_email = Some ''u1@example.com''\<rparr>) = db_two
   \<and> fst (delete_user db_two 7) = Inl (HTTPException 404 ''User not found'')
   \<and> snd (delete_user db_two 7) = db_two"
proof -
  have c: "fst (create_user db_two \<lparr>create_name = ''B'', create_email = ''u1@example.com''\<rparr>)
     = Inl (HTTPException 400 ''Email already exists'')"
    by (simp add: create_user_def dict_values_def)
  have u: "fst (update_user db_two 2 \<lparr>update_name = None, update_email = Some ''u1@example.com''\<rparr>)
     = Inl (HTTPException 400 ''Email already exists'')"
    by (simp add: update_user_def dict_values_def)
  have d: "fst (delete_user db_two 7) = Inl (HTTPException 404 ''User not found'')"
    by (simp add: delete_user_def dict_contains_def)
  from c u d
    error_leaves_store_unchanged [of db_two
      "\<lparr>create_name = ''B'', create_email = ''u1@example.com''\<rparr>"
      "HTTPException 400 ''Email already exists''" 2
      "\<lparr>update_name = None, update_email = Some ''u1@example.com''\<rparr>"]
    error_leaves_store_unchanged [of db_two u1_create
      "HTTPException 404 ''User not found''" 7
      "\<lparr>update_name = None, update_email = None\<rparr>"]
  show ?thesis by simp
qed

section \<open>Create, then get\<close>

text \<open>
  Claim C8. If \<open>create_user\<close> succeeds and returns the record \<open>u\<close>, then \<open>get_user\<close> on
  the id of \<open>u\<close>, called next, succeeds and returns \<open>u\<close>. This holds for every payload, so
  for every one that passed validation (a name of 1 to 100 characters, a well-formed
  email).
\<close>

theorem create_then_get:
  assumes "create_user db payload = (Inr u, db')"
  shows "get_user db' (uid u) = (Inr u, db')"
proof -
  from create_user_Inr [OF assms]
  have "uid u = next_id db" and "users db' = dict_setitem (users db) (next_id db) u"
    by simp_all
  then show ?thesis
    by (simp add: get_user_def dict_get_setitem)
qed

theorem create_then_get_witness:
  "create_user init_db u1_create = (Inr user1, db_one) \<and> get_user db_one 1 = (Inr user1, db_one)"
  using create_then_get [OF create_db_one] create_db_one by simp

section \<open>The same email twice\<close>

lemma create_user_email_taken:
  assumes "dict_get (users db) i = Some v" and "email v = e"
  shows "create_user db \<lparr>create_name = n, create_email = e\<rparr>
           = (Inl (HTTPException 400 ''Email already exists''), db)"
proof -
  from assms(1) have "(i, v) \<in> set (users db)"
    by (rule dict_get_mem)
  then have "v \<in> set (dict_values (users db))"
    by (force simp: dict_values_def)
  with assms(2) have "list_ex (\<lambda>w. email w = e) (dict_values (users db))"
    by (auto simp: list_ex_iff)
  then show ?thesis
    by (simp add: create_user_def)
qed

text \<open>
  Claim C3. If creating a user with email \<open>e\<close> succeeds and returns \<open>u\<close>, then creating
  another one with the same email, under any name, fails with
  \<^verbatim>\<open>HTTPException(status_code=400, detail="Email already exists")\<close> and leaves the store
  as it was, so that the first record is still returned by \<open>get_user\<close>, unchanged. This
  holds for the create that comes next, and for a create that comes after any further
  sequence of requests, as long as \<open>get_user\<close> still returns \<open>u\<close> for its id; it holds as
  well when the record has been updated in between and still has the email \<open>e\<close>. (Once
  the record is deleted, or updated to another email, \<open>e\<close> is free again.)
\<close>

theorem create_same_email_twice:
  assumes "create_user db \<lparr>create_name = n1, create_email = e\<rparr> = (Inr u, db')"
  shows "create_user db' \<lparr>create_name = n2, create_email = e\<rparr>
           = (Inl (HTTPException 400 ''Email already exists''), db')
         \<and> get_user db' (uid u) = (Inr u, db')
         \<and> (\<forall>rs. fst (get_user (run db' rs) (uid u)) = Inr u \<longrightarrow>
               create_user (run db' rs) \<lparr>create_name = n2, create_email = e\<rparr>
                 = (Inl (HTTPException 400 ''Email already exists''), run db' rs)
               \<and> get_user (run db' rs) (uid u) = (Inr u, run db' rs))
         \<and> (\<forall>rs u'. fst (get_user (run db' rs) (uid u)) = Inr u' \<and> email u' = e \<longrightarrow>
               create_user (run db' rs) \<lparr>create_name = n2, create_email = e\<rparr>
                 = (Inl (HTTPException 400 ''Email already exists''), run db' rs)
               \<and> get_user (run db' rs) (uid u) = (Inr u', run db' rs))"
proof -
  from create_user_Inr [OF assms]
  have u: "uid u = next_id db" "email u = e"
    and d: "users db' = dict_setitem (users db) (next_id db) u"
    by simp_all
  have later: "create_user s \<lparr>create_name = n2, create_email = e\<rparr>
                 = (Inl (HTTPException 400 ''Email already exists''), s)
               \<and> get_user s (uid u) = (Inr u', s)"
    if "fst (get_user s (uid u)) = Inr u'" "email u' = e" for s u'
  proof -
    from that(1) have g: "dict_get (users s) (uid u) = Some u'"
      by (simp add: get_user_Inr)
    from create_user_email_taken [OF g that(2)] g show ?thesis
      by (simp add: get_user_def)
  qed
  have g: "get_user db' (uid u) = (Inr u, db')"
    by (simp add: get_user_def d u dict_get_setitem)
  then have "fst (get_user db' (uid u)) = Inr u"
    by simp
  from later [OF this u(2)] have now: "create_user db' \<lparr>create_name = n2, create_email = e\<rparr>
           = (Inl (HTTPException 400 ''Email already exists''), db')"
    by simp
  from later u(2) have same: "\<forall>rs. fst (get_user (run db' rs) (uid u)) = Inr u \<longrightarrow>
               create_user (run db' rs) \<lparr>create_name = n2, create_email = e\<rparr>
                 = (Inl (HTTPException 400 ''Email already exists''), run db' rs)
               \<and> get_user (run db' rs) (uid u) = (Inr u, run db' rs)"
    by blast
  from later have any: "\<forall>rs u'. fst (get_user (run db' rs) (uid u)) = Inr u' \<and> email u' = e \<longrightarrow>
               create_user (run db' rs) \<lparr>create_name = n2, create_email = e\<rparr>
                 = (Inl (HTTPException 400 ''Email already exists''), run db' rs)
               \<and> get_user (run db' rs) (uid u) = (Inr u', run db' rs)"
    by blast
  from now g same any show ?thesis
    by (intro conjI)
qed

text \<open>
  In the empty store the first user is created; a second create with its email fails
  at once, and it fails as well after the second user has been created in between
  (the record the check has to find is then not the newest one).
\<close>

theorem create_same_email_twice_witness:
  "create_user init_db u1_create = (Inr user1, db_one)
   \<and> create_user db_one \<lparr>create_name = ''B'', create_email = ''u1@example.com''\<rparr>
       = (Inl (HTTPException 400 ''Email already exists''), db_one)
   \<and> get_user db_one 1 = (Inr user1, db_one)
   \<and> run db_one [Create u2_create] = db_two
   \<and> fst (get_user db_two 1) = Inr user1
   \<and> create_user db_two \<lparr>create_name = ''B'', create_email = ''u1@example.com''\<rparr>
       = (Inl (HTTPException 400 ''Email already exists''), db_two)
   \<and> get_user db_two 1 = (Inr user1, db_two)"
proof -
  have r: "run db_one [Create u2_create] = db_two"
    by (simp add: create_user_def User_def dict_values_def)
  have g: "fst (get_user (run db_one [Create u2_create]) (uid user1)) = Inr user1"
    unfolding r by (simp add: get_user_def)
  from create_same_email_twice [OF create_db_one, of "''B''"]
  have now: "create_user db_one \<lparr>create_name = ''B'', create_email = ''u1@example.com''\<rparr>
       = (Inl (HTTPException 400 ''Email already exists''), db_one)
     \<and> get_user db_one (uid user1) = (Inr user1, db_one)"
    and later: "\<forall>rs. fst (get_user (run db_one rs) (uid user1)) = Inr user1 \<longrightarrow>
       create_user (run db_one rs) \<lparr>create_name = ''B'', create_email = ''u1@example.com''\<rparr>
         = (Inl (HTTPException 400 ''Email already exists''), run db_one rs)
       \<and> get_user (run db_one rs) (uid user1) = (Inr user1, run db_one rs)"
    by blast+
  from later g
  have "create_user (run db_one [Create u2_create])
          \<lparr>create_name = ''B'', create_email = ''u1@example.com''\<rparr>
         = (Inl (HTTPException 400 ''Email already exists''), run db_one [Create u2_create])
       \<and> get_user (run db_one [Create u2_create]) (uid user1)
         = (Inr user1, run db_one [Create u2_create])"
    by blast
  then have l: "create_user db_two \<lparr>create_name = ''B'', create_email = ''u1@example.com''\<rparr>
         = (Inl (HTTPException 400 ''Email already exists''), db_two)
       \<and> get_user db_two (uid user1) = (Inr user1, db_two)"
    unfolding r .
  from g have g': "fst (get_user db_two (uid user1)) = Inr user1"
    unfolding r .
  have one: "uid user1 = 1"
    by simp
  from create_db_one now r g' l show ?thesis
    unfolding one by (intro conjI) blast+
qed

section \<open>Updating a record to its own email\<close>

text \<open>
  Claim C6. For a live record \<open>u\<close> with id \<open>i\<close>, an update whose payload has no email, or
  the email \<open>u\<close> already has, does not fail with
  \<^verbatim>\<open>HTTPException(status_code=400, detail="Email already exists")\<close>, in any store
  whatever: nothing is assumed about the other records.
\<close>

theorem update_same_email_no_duplicate_error:
  assumes "fst (get_user db i) = Inr u"
    and "update_email payload = None \<or> update_email payload = Some (email u)"
  shows "fst (update_user db i payload) \<noteq> Inl (HTTPException 400 ''Email already exists'')"
  using assms
  by (auto simp: get_user_Inr update_user_def User_def Let_def split: option.splits)

theorem update_same_email_no_duplicate_error_witness:
  "fst (get_user db_two 2) = Inr user2
   \<and> update_email \<lparr>update_name = Some ''X'', update_email = Some ''u2@example.com''\<rparr>
       = Some (email user2)
   \<and> fst (update_user db_two 2 \<lparr>update_name = Some ''X'', update_email = Some ''u2@example.com''\<rparr>)
       \<noteq> Inl (HTTPException 400 ''Email already exists'')"
proof -
  have g: "fst (get_user db_two 2) = Inr user2"
    by (simp add: get_user_def)
  have e: "update_email \<lparr>update_name = Some ''X'', update_email = Some ''u2@example.com''\<rparr> = None
    \<or> update_email \<lparr>update_name = Some ''X'', update_email = Some ''u2@example.com''\<rparr>
       = Some (email user2)"
    by simp
  from update_same_email_no_duplicate_error [OF g e] g show ?thesis by simp
qed

section \<open>The empty update\<close>

text \<open>
  Claim C7. In every store reached from the empty one, for every live record \<open>u\<close> with
  id \<open>i\<close>, the update of \<open>i\<close> with a payload that has neither name nor email succeeds,
  returns \<open>u\<close> itself, and leaves the whole store, this record and every other one, as it
  was.
\<close>

theorem empty_update_is_noop:
  assumes "fst (get_user (run init_db rs) i) = Inr u"
  shows "update_user (run init_db rs) i \<lparr>update_name = None, update_email = None\<rparr>
           = (Inr u, run init_db rs)"
proof -
  let ?db = "run init_db rs"
  from assms have g: "dict_get (users ?db) i = Some u"
    by (simp add: get_user_Inr)
  with wf_db_uid [OF wf_db_reachable g] have "uid u = i" "1 \<le> i"
    by simp_all
  then have "User i (name u) (email u) = Inr u"
    by (simp add: User_def)
  with g show ?thesis
    by (simp add: update_user_def dict_setitem_same)
qed

theorem empty_update_is_noop_witness:
  "fst (get_user (run init_db [Create u1_create, Create u2_create]) 2) = Inr user2
   \<and> update_user (run init_db [Create u1_create, Create u2_create]) 2
        \<lparr>update_name = None, update_email = None\<rparr>
       = (Inr user2, db_two)"
proof -
  have g: "fst (get_user (run init_db [Create u1_create, Create u2_create]) 2) = Inr user2"
    unfolding run_two by (simp add: get_user_def)
  from empty_update_is_noop [OF g] g show ?thesis
    unfolding run_two by simp
qed

section \<open>Emails are unique\<close>

text \<open>
  Claim C1. In every store reached from the empty one by any sequence of requests, the
  emails of the records \<open>list_users\<close> returns are pairwise distinct, and two records
  that \<open>get_user\<close> returns for two different ids have different emails. Emails are
  compared as strings, character by character.
\<close>

theorem email_unique:
  "distinct (map email (fst (list_users (run init_db rs))))
   \<and> (\<forall>i j u v. fst (get_user (run init_db rs) i) = Inr u
          \<and> fst (get_user (run init_db rs) j) = Inr v \<and> i \<noteq> j
        \<longrightarrow> email u \<noteq> email v)"
proof -
  let ?db = "run init_db rs"
  have wf: "wf_db ?db" by (rule wf_db_reachable)
  then have dist: "distinct (map email (dict_values (users ?db)))"
    by (simp add: wf_db_def)
  have "email u \<noteq> email v"
    if "dict_get (users ?db) i = Some u" "dict_get (users ?db) j = Some v" "i \<noteq> j" for i j u v
  proof
    assume eq: "email u = email v"
    from dist have inj: "inj_on (email \<circ> snd) (set (users ?db))"
      by (simp add: dict_values_def distinct_map)
    from that(1,2) have "(i, u) \<in> set (users ?db)" "(j, v) \<in> set (users ?db)"
      by (simp_all add: dict_get_mem)
    with inj_onD [OF inj, of "(i, u)" "(j, v)"] eq have "(i, u) = (j, v)"
      by simp
    with that(3) show False by simp
  qed
  with dist show ?thesis
    by (auto simp: list_users_def get_user_Inr)
qed

text \<open>
  Two emails that differ in the case of one letter are different emails: both creates
  succeed, and both records are live.
\<close>

theorem email_unique_witness:
  "fst (get_user (run init_db
          [Create \<lparr>create_name = ''A'', create_email = ''A@example.com''\<rparr>,
           Create \<lparr>create_name = ''A'', create_email = ''a@example.com''\<rparr>]) 1)
     = Inr \<lparr>uid = 1, name = ''A'', email = ''A@example.com''\<rparr>
   \<and> fst (get_user (run init_db
          [Create \<lparr>create_name = ''A'', create_email = ''A@example.com''\<rparr>,
           Create \<lparr>create_name = ''A'', create_email = ''a@example.com''\<rparr>]) 2)
     = Inr \<lparr>uid = 2, name = ''A'', email = ''a@example.com''\<rparr>
   \<and> map email (fst (list_users (run init_db
          [Create \<lparr>create_name = ''A'', create_email = ''A@example.com''\<rparr>,
           Create \<lparr>create_name = ''A'', create_email = ''a@example.com''\<rparr>])))
     = [''A@example.com'', ''a@example.com'']
   \<and> distinct (map email (fst (list_users (run init_db
          [Create \<lparr>create_name = ''A'', create_email = ''A@example.com''\<rparr>,
           Create \<lparr>create_name = ''A'', create_email = ''a@example.com''\<rparr>]))))"
  using email_unique [of "[Create \<lparr>create_name = ''A'', create_email = ''A@example.com''\<rparr>,
           Create \<lparr>create_name = ''A'', create_email = ''a@example.com''\<rparr>]"]
  by (simp add: init_db_def create_user_def User_def dict_values_def get_user_def list_users_def)

section \<open>Ids are assigned in increasing order and never again\<close>

lemma created_ids_Nil: "created_ids db [] = []"
  by (simp add: created_ids_def)

lemma created_ids_Cons:
  "created_ids db (r # rs) = assigned_id r (fst (handle db r)) @ created_ids (snd (handle db r)) rs"
  by (simp add: created_ids_def)

lemma assigned_id_handle:
  "assigned_id r (fst (handle db r)) = [next_id db .. next_id (snd (handle db r)) - 1]
   \<and> next_id db \<le> next_id (snd (handle db r))"
proof (cases r)
  case (Create payload)
  show ?thesis
  proof (cases "fst (create_user db payload)")
    case (Inl e)
    with Create create_user_Inl [OF Inl] show ?thesis
      by (simp add: case_prod_beta)
  next
    case (Inr u)
    then have c: "create_user db payload = (Inr u, snd (create_user db payload))"
      by (metis prod.collapse)
    from create_user_Inr [OF c] have "uid u = next_id db"
      "next_id (snd (create_user db payload)) = next_id db + 1"
      by simp_all
    with Create Inr show ?thesis
      by (simp add: case_prod_beta)
  qed
next
  case List
  then show ?thesis by (simp add: list_users_def)
next
  case (Get i)
  then show ?thesis by (simp add: get_user_def split: option.splits)
next
  case (Update i payload)
  show ?thesis
  proof (cases "fst (update_user db i payload)")
    case (Inl e)
    with Update update_user_Inl [OF Inl] show ?thesis
      by (simp add: case_prod_beta)
  next
    case (Inr u)
    then have c: "update_user db i payload = (Inr u, snd (update_user db i payload))"
      by (metis prod.collapse)
    from update_user_Inr [OF c] have "next_id (snd (update_user db i payload)) = next_id db"
      by auto
    with Update Inr show ?thesis
      by (simp add: case_prod_beta)
  qed
next
  case (Delete i)
  show ?thesis
  proof (cases "fst (delete_user db i)")
    case (Inl e)
    with Delete delete_user_Inl [OF Inl] show ?thesis
      by (simp add: case_prod_beta)
  next
    case (Inr u)
    then have c: "delete_user db i = (Inr u, snd (delete_user db i))"
      by (metis prod.collapse)
    from delete_user_Inr [OF c] have "next_id (snd (delete_user db i)) = next_id db"
      by auto
    with Delete Inr show ?thesis
      by (simp add: case_prod_beta)
  qed
qed

lemma next_id_run_mono: "next_id db \<le> next_id (run db rs)"
proof (induction rs arbitrary: db)
  case Nil
  show ?case by simp
next
  case (Cons r rs)
  from assigned_id_handle [of r db] Cons [of "snd (handle db r)"] show ?case by simp
qed

lemma upto_append: "i \<le> j + 1 \<Longrightarrow> j \<le> k \<Longrightarrow> [i..j] @ [j + 1..k] = [i..k]" for i j k :: int
proof (cases "i \<le> j")
  case True
  moreover assume "j \<le> k"
  ultimately show ?thesis using upto_split2 [of i j k] by simp
next
  case False
  moreover assume "i \<le> j + 1"
  ultimately have "i = j + 1" by simp
  with False show ?thesis by simp
qed

lemma created_ids_upto: "created_ids db rs = [next_id db .. next_id (run db rs) - 1]"
proof (induction rs arbitrary: db)
  case Nil
  show ?case by (simp add: created_ids_Nil)
next
  case (Cons r rs)
  let ?db1 = "snd (handle db r)"
  have "created_ids db (r # rs) = [next_id db .. next_id ?db1 - 1] @ [next_id ?db1 .. next_id (run ?db1 rs) - 1]"
    by (simp add: created_ids_Cons assigned_id_handle Cons)
  also have "\<dots> = [next_id db .. next_id (run ?db1 rs) - 1]"
    using upto_append [of "next_id db" "next_id ?db1 - 1" "next_id (run ?db1 rs) - 1"]
      assigned_id_handle [of r db] next_id_run_mono [of ?db1 rs]
    by simp
  finally show ?case by simp
qed

text \<open>
  Claim C2. For any sequence of requests served from the empty store, the ids assigned
  by the successful creates, in the order of the requests, are 1, 2, ..., n: the first
  is 1 and each next one is the largest id assigned so far plus 1. So they increase
  strictly and no id is assigned twice, whatever was deleted in between.
\<close>

theorem created_ids_increasing:
  "created_ids init_db rs = [1 .. int (length (created_ids init_db rs))]
   \<and> sorted_wrt (<) (created_ids init_db rs)
   \<and> distinct (created_ids init_db rs)"
proof -
  let ?n = "next_id (run init_db rs)"
  have ids: "created_ids init_db rs = [1 .. ?n - 1]"
    using created_ids_upto [of init_db rs] by (simp add: init_db_def)
  have "1 \<le> ?n"
    using next_id_run_mono [of init_db rs] by (simp add: init_db_def)
  then have "int (length (created_ids init_db rs)) = ?n - 1"
    by (simp add: ids)
  with ids show ?thesis
    by (simp add: sorted_wrt_upto)
qed

text \<open>
  The record with id 1 is deleted and its email is used again: the new record gets
  id 2, not 1. The create that fails (the email is taken) assigns no id.
\<close>

theorem created_ids_increasing_witness:
  "created_ids init_db [Create u1_create, Delete 1, Create u1_create, Create u1_create, Create u2_create]
     = [1, 2, 3]"
  using created_ids_increasing
    [of "[Create u1_create, Delete 1, Create u1_create, Create u1_create, Create u2_create]"]
  by (simp add: created_ids_def init_db_def create_user_def delete_user_def User_def
      dict_values_def dict_contains_def)

section \<open>Listing\<close>

lemma dict_get_distinct: "distinct (dict_keys d) \<Longrightarrow> (k, v) \<in> set d \<Longrightarrow> dict_get d k = Some v"
  by (induction d k rule: dict_get.induct) (auto simp: dict_keys_def rev_image_eqI)

lemma wf_db_distinct_keys: "wf_db db \<Longrightarrow> distinct (dict_keys (users db))"
  by (simp add: wf_db_def strict_sorted_iff)

lemma wf_db_map_uid: "wf_db db \<Longrightarrow> map uid (dict_values (users db)) = dict_keys (users db)"
  by (auto simp: wf_db_def dict_values_def dict_keys_def list_all_iff)

lemma sorted_filter_upto:
  fixes xs :: "int list"
  assumes "sorted_wrt (<) xs" and "set xs \<subseteq> {i..j}"
  shows "filter (\<lambda>k. k \<in> set xs) [i..j] = xs"
proof (rule sorted_distinct_set_unique)
  show "sorted (filter (\<lambda>k. k \<in> set xs) [i..j])"
    by (simp add: sorted_wrt_filter)
  show "distinct (filter (\<lambda>k. k \<in> set xs) [i..j])"
    by simp
  from assms(1) show "sorted xs" "distinct xs"
    by (simp_all add: strict_sorted_iff)
  from assms(2) show "set (filter (\<lambda>k. k \<in> set xs) [i..j]) = set xs"
    by auto
qed

lemma wf_db_keys_filter:
  assumes "wf_db db"
  shows "dict_keys (users db) = filter (dict_contains (users db)) [1 .. next_id db - 1]"
proof -
  have "dict_contains (users db) = (\<lambda>k. k \<in> set (dict_keys (users db)))"
    by (auto simp: dict_contains_def dict_get_None_iff)
  moreover have "set (dict_keys (users db)) \<subseteq> {1 .. next_id db - 1}"
    using wf_db_keys_lt [OF assms] by fastforce
  moreover have "sorted_wrt (<) (dict_keys (users db))"
    using assms by (simp add: wf_db_def)
  ultimately show ?thesis
    by (simp add: sorted_filter_upto)
qed

text \<open>
  Claim C5. \<open>list_users\<close> takes only the state and leaves it as it is. In every store
  reached from the empty one it returns every live record (every record that
  \<open>get_user\<close> returns for some id) once, in creation order: the ids of the records it
  returns are the ids assigned so far, in the order of their assignment, without those
  that are not live any more. Creating A, then B, then C in the empty store (with three
  different emails, so that the three creates succeed) yields the list A, B, C.
\<close>

theorem list_users_creation_order:
  "snd (list_users (run init_db rs)) = run init_db rs
   \<and> distinct (fst (list_users (run init_db rs)))
   \<and> set (fst (list_users (run init_db rs))) = {u. \<exists>i. fst (get_user (run init_db rs) i) = Inr u}
   \<and> map uid (fst (list_users (run init_db rs)))
       = filter (dict_contains (users (run init_db rs))) (created_ids init_db rs)
   \<and> (distinct [ea, eb, ec] \<longrightarrow>
        fst (list_users (run init_db
          [Create \<lparr>create_name = na, create_email = ea\<rparr>,
           Create \<lparr>create_name = nb, create_email = eb\<rparr>,
           Create \<lparr>create_name = nc, create_email = ec\<rparr>]))
        = [\<lparr>uid = 1, name = na, email = ea\<rparr>,
           \<lparr>uid = 2, name = nb, email = eb\<rparr>,
           \<lparr>uid = 3, name = nc, email = ec\<rparr>])"
proof -
  let ?db = "run init_db rs"
  have wf: "wf_db ?db" by (rule wf_db_reachable)
  have ids: "created_ids init_db rs = [1 .. next_id ?db - 1]"
    using created_ids_upto [of init_db rs] by (simp add: init_db_def)
  have order: "map uid (fst (list_users ?db)) = filter (dict_contains (users ?db)) (created_ids init_db rs)"
    using wf_db_keys_filter [OF wf] by (simp add: list_users_def wf_db_map_uid [OF wf] ids)
  have "distinct (map uid (fst (list_users ?db)))"
    using wf_db_distinct_keys [OF wf] by (simp add: list_users_def wf_db_map_uid [OF wf])
  then have dist: "distinct (fst (list_users ?db))"
    by (simp add: distinct_map)
  have live: "set (fst (list_users ?db)) = {u. \<exists>i. fst (get_user ?db i) = Inr u}"
  proof (intro set_eqI iffI)
    fix u assume "u \<in> set (fst (list_users ?db))"
    then obtain k where "(k, u) \<in> set (users ?db)"
      by (auto simp: list_users_def dict_values_def)
    then have "dict_get (users ?db) k = Some u"
      by (rule dict_get_distinct [OF wf_db_distinct_keys [OF wf]])
    then show "u \<in> {u. \<exists>i. fst (get_user ?db i) = Inr u}"
      by (auto simp: get_user_Inr)
  next
    fix u assume "u \<in> {u. \<exists>i. fst (get_user ?db i) = Inr u}"
    then obtain i where "dict_get (users ?db) i = Some u"
      by (auto simp: get_user_Inr)
    then have "(i, u) \<in> set (users ?db)"
      by (rule dict_get_mem)
    then show "u \<in> set (fst (list_users ?db))"
      by (force simp: list_users_def dict_values_def)
  qed
  have abc: "fst (list_users (run init_db
          [Create \<lparr>create_name = na, create_email = ea\<rparr>,
           Create \<lparr>create_name = nb, create_email = eb\<rparr>,
           Create \<lparr>create_name = nc, create_email = ec\<rparr>]))
        = [\<lparr>uid = 1, name = na, email = ea\<rparr>,
           \<lparr>uid = 2, name = nb, email = eb\<rparr>,
           \<lparr>uid = 3, name = nc, email = ec\<rparr>]" if "distinct [ea, eb, ec]"
    using that
    by (auto simp: init_db_def create_user_def User_def dict_values_def list_users_def)
  from order dist live abc show ?thesis
    by (simp add: list_users_def)
qed

text \<open>
  The three creates, and a run with a delete, a later create and an update: the records
  with ids 2 and 3 are listed in that order.
\<close>

theorem list_users_creation_order_witness:
  "distinct [''a@example.com'', ''b@example.com'', ''c@example.com'']
   \<and> fst (list_users (run init_db
          [Create \<lparr>create_name = ''A'', create_email = ''a@example.com''\<rparr>,
           Create \<lparr>create_name = ''B'', create_email = ''b@example.com''\<rparr>,
           Create \<lparr>create_name = ''C'', create_email = ''c@example.com''\<rparr>]))
        = [\<lparr>uid = 1, name = ''A'', email = ''a@example.com''\<rparr>,
           \<lparr>uid = 2, name = ''B'', email = ''b@example.com''\<rparr>,
           \<lparr>uid = 3, name = ''C'', email = ''c@example.com''\<rparr>]
   \<and> map uid (fst (list_users (run init_db
          [Create u1_create, Create u2_create, Delete 1, Create u1_create,
           Update 2 \<lparr>update_name = Some ''X'', update_email = None\<rparr>])))
        = [2, 3]"
proof -
  have d: "distinct [''a@example.com'', ''b@example.com'', ''c@example.com'']"
    by simp
  have l: "map uid (fst (list_users (run init_db
          [Create u1_create, Create u2_create, Delete 1, Create u1_create,
           Update 2 \<lparr>update_name = Some ''X'', update_email = None\<rparr>])))
        = [2, 3]"
    by (simp add: init_db_def create_user_def delete_user_def update_user_def User_def
        dict_values_def dict_contains_def list_users_def Let_def)
  from d l list_users_creation_order [of "[]" "''a@example.com''" "''b@example.com''"
      "''c@example.com''" "''A''" "''B''" "''C''"]
  show ?thesis by simp
qed

section \<open>Deleting\<close>

lemma dict_delitem_keys: "dict_delitem d k = Some d' \<Longrightarrow> set (dict_keys d') \<subseteq> set (dict_keys d)"
  by (induction d k arbitrary: d' rule: dict_delitem.induct)
     (fastforce simp: dict_keys_def split: if_splits option.splits)+

lemma absent_handle:
  assumes "wf_db db" and "i < next_id db" and "dict_get (users db) i = None"
  shows "dict_get (users (snd (handle db r))) i = None"
proof (cases r)
  case (Create payload)
  show ?thesis
  proof (cases "fst (create_user db payload)")
    case (Inl e)
    with Create create_user_Inl [OF Inl] assms show ?thesis
      by (simp add: case_prod_beta)
  next
    case (Inr u)
    then have "create_user db payload = (Inr u, snd (create_user db payload))"
      by (metis prod.collapse)
    from create_user_Inr [OF this]
    have "users (snd (create_user db payload)) = dict_setitem (users db) (next_id db) u"
      by simp
    with Create assms show ?thesis
      by (simp add: case_prod_beta dict_get_setitem)
  qed
next
  case List
  with assms show ?thesis by (simp add: list_users_def)
next
  case (Get j)
  with assms show ?thesis by (simp add: get_user_def split: option.splits)
next
  case (Update j payload)
  show ?thesis
  proof (cases "fst (update_user db j payload)")
    case (Inl e)
    with Update update_user_Inl [OF Inl] assms show ?thesis
      by (simp add: case_prod_beta)
  next
    case (Inr u')
    then have "update_user db j payload = (Inr u', snd (update_user db j payload))"
      by (metis prod.collapse)
    from update_user_Inr [OF this] obtain u where
      "dict_get (users db) j = Some u"
      "users (snd (update_user db j payload)) = dict_setitem (users db) j u'"
      by auto
    with Update assms show ?thesis
      by (auto simp: case_prod_beta dict_get_setitem)
  qed
next
  case (Delete j)
  show ?thesis
  proof (cases "fst (delete_user db j)")
    case (Inl e)
    with Delete delete_user_Inl [OF Inl] assms show ?thesis
      by (simp add: case_prod_beta)
  next
    case (Inr x)
    then have "delete_user db j = (Inr x, snd (delete_user db j))"
      by (metis prod.collapse)
    from delete_user_Inr [OF this] obtain d where
      "dict_delitem (users db) j = Some d" "users (snd (delete_user db j)) = d"
      by auto
    with dict_delitem_keys [of "users db" j d] Delete assms show ?thesis
      by (auto simp: case_prod_beta dict_get_None_iff)
  qed
qed

lemma absent_run:
  "wf_db db \<Longrightarrow> i < next_id db \<Longrightarrow> dict_get (users db) i = None
     \<Longrightarrow> dict_get (users (run db rs)) i = None"
proof (induction rs arbitrary: db)
  case Nil
  then show ?case by simp
next
  case (Cons r rs)
  have "i < next_id (snd (handle db r))"
    using Cons.prems(2) assigned_id_handle [of r db] by simp
  with Cons.prems show ?case
    by (simp add: Cons.IH handle_wf absent_handle)
qed

text \<open>
  Claim C9. In every store reached from the empty one: deleting a live id succeeds, and
  after it \<open>get_user\<close> on that id fails with
  \<^verbatim>\<open>HTTPException(status_code=404, detail="User not found")\<close>, at once and after any
  further sequence of requests (the id never comes back); deleting an id that has no
  live record fails with the same error and leaves the store as it was.
\<close>

theorem delete_then_get_not_found:
  assumes "db = run init_db rs"
  shows "(fst (get_user db i) = Inr u \<longrightarrow>
           fst (delete_user db i) = Inr ()
           \<and> (\<forall>rs'. fst (get_user (run (snd (delete_user db i)) rs') i)
                 = Inl (HTTPException 404 ''User not found'')))
         \<and> (fst (get_user db i) = Inl (HTTPException 404 ''User not found'') \<longrightarrow>
             delete_user db i = (Inl (HTTPException 404 ''User not found''), db))"
proof (intro conjI impI)
  assume "fst (get_user db i) = Inl (HTTPException 404 ''User not found'')"
  then show "delete_user db i = (Inl (HTTPException 404 ''User not found''), db)"
    by (simp add: get_user_def delete_user_def dict_contains_def split: option.splits)
next
  assume "fst (get_user db i) = Inr u"
  then have g: "dict_get (users db) i = Some u"
    by (simp add: get_user_Inr)
  have wf: "wf_db db"
    using assms by (simp add: wf_db_reachable)
  from dict_get_split [OF g] obtain d1 d2 where
    d: "users db = d1 @ (i, u) # d2" and del: "dict_delitem (users db) i = Some (d1 @ d2)"
    by blast
  from g del have res: "delete_user db i = (Inr (), db\<lparr>users := d1 @ d2\<rparr>)"
    by (simp add: delete_user_def dict_contains_def)
  then show "fst (delete_user db i) = Inr ()"
    by simp
  have wf': "wf_db (db\<lparr>users := d1 @ d2\<rparr>)"
    using delete_user_wf [OF wf, of i] res by simp
  have "i \<notin> set (dict_keys (d1 @ d2))"
    using wf_db_distinct_keys [OF wf] by (auto simp: d dict_keys_def)
  then have gone: "dict_get (users (db\<lparr>users := d1 @ d2\<rparr>)) i = None"
    by (simp add: dict_get_None_iff)
  have lt: "i < next_id (db\<lparr>users := d1 @ d2\<rparr>)"
    using wf_db_uid [OF wf g] by simp
  show "\<forall>rs'. fst (get_user (run (snd (delete_user db i)) rs') i)
          = Inl (HTTPException 404 ''User not found'')"
    using absent_run [OF wf' lt gone] by (simp add: res get_user_def)
qed

text \<open>
  On the store of two users: id 1 is deleted; after a further create with the email of
  the deleted record, id 1 is still not found (the new record has id 3). Id 7 was never
  assigned, and deleting it fails.
\<close>

theorem delete_then_get_not_found_witness:
  "db_two = run init_db [Create u1_create, Create u2_create]
   \<and> fst (get_user db_two 1) = Inr user1
   \<and> fst (delete_user db_two 1) = Inr ()
   \<and> fst (get_user (run (snd (delete_user db_two 1)) [Create u1_create]) 1)
       = Inl (HTTPException 404 ''User not found'')
   \<and> fst (get_user (run (snd (delete_user db_two 1)) [Create u1_create]) 3)
       = Inr \<lparr>uid = 3, name = ''U1'', email = ''u1@example.com''\<rparr>
   \<and> fst (get_user db_two 7) = Inl (HTTPException 404 ''User not found'')
   \<and> delete_user db_two 7 = (Inl (HTTPException 404 ''User not found''), db_two)"
proof -
  have r: "db_two = run init_db [Create u1_create, Create u2_create]"
    by (rule run_two [symmetric])
  have g1: "fst (get_user db_two 1) = Inr user1"
    by (simp add: get_user_def)
  have g7: "fst (get_user db_two 7) = Inl (HTTPException 404 ''User not found'')"
    by (simp add: get_user_def)
  have g3: "fst (get_user (run (snd (delete_user db_two 1)) [Create u1_create]) 3)
       = Inr \<lparr>uid = 3, name = ''U1'', email = ''u1@example.com''\<rparr>"
    by (simp add: get_user_def delete_user_def create_user_def User_def dict_contains_def
        dict_values_def)
  have d1: "fst (delete_user db_two 1) = Inr ()
      \<and> (\<forall>rs'. fst (get_user (run (snd (delete_user db_two 1)) rs') 1)
            = Inl (HTTPException 404 ''User not found''))"
    using delete_then_get_not_found [OF r, of 1 user1] g1 by blast
  have d7: "delete_user db_two 7 = (Inl (HTTPException 404 ''User not found''), db_two)"
    using delete_then_get_not_found [OF r, of 7 user1] g7 by blast
  from d1 have "fst (get_user (run (snd (delete_user db_two 1)) [Create u1_create]) 1)
       = Inl (HTTPException 404 ''User not found'')"
    by blast
  with r g1 g3 g7 d1 d7 show ?thesis
    by (intro conjI) blast+
qed

section \<open>Updating keeps the position\<close>

text \<open>
  Claim C10. In every store reached from the empty one, after a successful update of
  id \<open>i\<close> that returns \<open>u'\<close>, \<open>list_users\<close> returns the list it returned before with the
  record of id \<open>i\<close> replaced, where it stood, by \<open>u'\<close>: the sequence of ids is the same,
  \<open>i\<close> occurs in it exactly once, and every other record is the same at the same place.
\<close>

theorem update_keeps_position:
  assumes "db = run init_db rs" and "update_user db i payload = (Inr u', db')"
  shows "fst (list_users db') = map (\<lambda>v. if uid v = i then u' else v) (fst (list_users db))
         \<and> map uid (fst (list_users db')) = map uid (fst (list_users db))
         \<and> uid u' = i \<and> i \<in> set (map uid (fst (list_users db)))
         \<and> distinct (map uid (fst (list_users db)))"
proof -
  have wf: "wf_db db"
    using assms(1) by (simp add: wf_db_reachable)
  from update_user_Inr [OF assms(2)] obtain u where
    g: "dict_get (users db) i = Some u" and u': "uid u' = i" and
    db': "db' = db\<lparr>users := dict_setitem (users db) i u'\<rparr>"
    by auto
  from dict_get_split [OF g] obtain d1 d2 where
    d: "users db = d1 @ (i, u) # d2" and s: "dict_setitem (users db) i u' = d1 @ (i, u') # d2"
    by blast
  have u: "uid u = i"
    using wf_db_uid [OF wf g] by simp
  have dist: "distinct (map uid (dict_values (users db)))"
    using wf_db_distinct_keys [OF wf] by (simp add: wf_db_map_uid [OF wf])
  with u have "i \<notin> uid ` set (dict_values d1)" "i \<notin> uid ` set (dict_values d2)"
    by (simp_all add: d dict_values_def image_image)
  then have other: "uid v \<noteq> i" if "v \<in> set (dict_values d1) \<union> set (dict_values d2)" for v
    using that by blast
  have "map (\<lambda>v. if uid v = i then u' else v) (dict_values d1) = dict_values d1"
    "map (\<lambda>v. if uid v = i then u' else v) (dict_values d2) = dict_values d2"
    using other by (simp_all add: map_idI)
  then have eq: "dict_values (d1 @ (i, u') # d2)
      = map (\<lambda>v. if uid v = i then u' else v) (dict_values (d1 @ (i, u) # d2))"
    using u by (simp add: dict_values_def)
  have uids: "map uid (dict_values (d1 @ (i, u') # d2)) = map uid (dict_values (d1 @ (i, u) # d2))"
    using u u' by (simp add: dict_values_def)
  have mem: "i \<in> set (map uid (dict_values (d1 @ (i, u) # d2)))"
    using u by (simp add: dict_values_def)
  have dist': "distinct (map uid (dict_values (d1 @ (i, u) # d2)))"
    using dist by (simp only: d)
  have l: "fst (list_users db) = dict_values (d1 @ (i, u) # d2)"
    by (simp add: list_users_def d)
  have l': "fst (list_users db') = dict_values (d1 @ (i, u') # d2)"
    by (simp add: list_users_def db' s)
  from eq uids mem dist' u' show ?thesis
    unfolding l l' by blast
qed

theorem update_keeps_position_witness:
  "db_two = run init_db [Create u1_create, Create u2_create]
   \<and> update_user db_two 1 \<lparr>update_name = Some ''Ivan Petrov'', update_email = None\<rparr>
       = (Inr \<lparr>uid = 1, name = ''Ivan Petrov'', email = ''u1@example.com''\<rparr>,
          \<lparr>users = [(1, \<lparr>uid = 1, name = ''Ivan Petrov'', email = ''u1@example.com''\<rparr>),
                     (2, user2)], next_id = 3\<rparr>)
   \<and> fst (list_users db_two) = [user1, user2]
   \<and> fst (list_users
        \<lparr>users = [(1, \<lparr>uid = 1, name = ''Ivan Petrov'', email = ''u1@example.com''\<rparr>),
                   (2, user2)], next_id = 3\<rparr>)
       = [\<lparr>uid = 1, name = ''Ivan Petrov'', email = ''u1@example.com''\<rparr>, user2]"
proof -
  have r: "db_two = run init_db [Create u1_create, Create u2_create]"
    by (rule run_two [symmetric])
  have u: "update_user db_two 1 \<lparr>update_name = Some ''Ivan Petrov'', update_email = None\<rparr>
       = (Inr \<lparr>uid = 1, name = ''Ivan Petrov'', email = ''u1@example.com''\<rparr>,
          \<lparr>users = [(1, \<lparr>uid = 1, name = ''Ivan Petrov'', email = ''u1@example.com''\<rparr>),
                     (2, user2)], next_id = 3\<rparr>)"
    by (simp add: update_user_def User_def Let_def)
  have l: "fst (list_users db_two) = [user1, user2]"
    by (simp add: list_users_def dict_values_def)
  from update_keeps_position [OF r u]
  have "fst (list_users
        \<lparr>users = [(1, \<lparr>uid = 1, name = ''Ivan Petrov'', email = ''u1@example.com''\<rparr>),
                   (2, user2)], next_id = 3\<rparr>)
      = map (\<lambda>v. if uid v = 1 then \<lparr>uid = 1, name = ''Ivan Petrov'', email = ''u1@example.com''\<rparr>
                  else v) (fst (list_users db_two))"
    by blast
  then have "fst (list_users
        \<lparr>users = [(1, \<lparr>uid = 1, name = ''Ivan Petrov'', email = ''u1@example.com''\<rparr>),
                   (2, user2)], next_id = 3\<rparr>)
       = [\<lparr>uid = 1, name = ''Ivan Petrov'', email = ''u1@example.com''\<rparr>, user2]"
    unfolding l by simp
  with r u l show ?thesis
    by (intro conjI) blast+
qed

end
